theory Spec2Isabelle
  imports Complex_Main "HOL-Library.Sublist"
begin

section \<open>Strings and the canvas context\<close>

text \<open>
  A JavaScript string is modelled as the list of its code points, which is what
  \<^verbatim>\<open>for (const ch of t)\<close> iterates over and what concatenation appends. Every
  character of the class \<^verbatim>\<open>\s\<close> lies in the basic plane, so splitting and trimming act
  on code points as they do on code units.
\<close>

type_synonym codepoint = nat
type_synonym jsstring = "codepoint list"

definition isSpace :: "codepoint \<Rightarrow> bool" where
  \<comment> \<open>the class \<^verbatim>\<open>\s\<close>, which is also the set removed by \<^verbatim>\<open>trim()\<close>\<close>
  "isSpace c =
     (c \<in> set [9, 10, 11, 12, 13, 32, 160, 5760, 8232, 8233, 8239, 8287, 12288, 65279]
      \<or> (8192 \<le> c \<and> c \<le> 8202))"

text \<open>
  \<^verbatim>\<open>split\<close> at every character satisfying \<open>p\<close>. Two adjacent separators give an
  empty piece, as do a leading and a trailing one.
\<close>

fun splitBy :: "(codepoint \<Rightarrow> bool) \<Rightarrow> jsstring \<Rightarrow> jsstring list" where
  "splitBy p [] = [[]]"
| "splitBy p (c # cs) =
     (if p c then [] # splitBy p cs
      else (case splitBy p cs of [] \<Rightarrow> [[c]] | w # ws \<Rightarrow> (c # w) # ws))"

text \<open>
  The font descriptor assigned to \<^verbatim>\<open>ctx.font\<close>: an optional weight prefix
  (\<^verbatim>\<open>600 \<close>), the size in pixels and the quoted family. The context stores the last
  descriptor assigned; the host's measurer is a function of that descriptor and the
  string. Widths are real numbers.
\<close>

record font =
  weight :: "nat option"
  sizePx :: int
  family :: jsstring

record ctx =
  font :: font
  measurer :: "font \<Rightarrow> jsstring \<Rightarrow> real"

definition measureText :: "ctx \<Rightarrow> jsstring \<Rightarrow> real" where
  \<comment> \<open>\<^verbatim>\<open>ctx.measureText(s).width\<close>\<close>
  "measureText c s = measurer c (font c) s"

definition quoteFontName :: "jsstring \<Rightarrow> jsstring" where
  \<comment> \<open>the second declaration of the source, which is the one in effect\<close>
  "quoteFontName name =
     (if name = [] then [34, 78, 111, 116, 111, 32, 83, 97, 110, 115, 34]
      else if 32 \<in> set name then [34] @ name @ [34] else name)"

section \<open>Word wrapper\<close>

definition tokenizeWords :: "jsstring \<Rightarrow> jsstring list" where
  \<comment> \<open>\<^verbatim>\<open>split(/\s+/).filter(Boolean)\<close>: the maximal runs of non-space characters\<close>
  "tokenizeWords text = filter (\<lambda>w. w \<noteq> []) (splitBy isSpace text)"

text \<open>The inner loop over the characters of one token; the state is \<open>(lines, chunk)\<close>.\<close>

fun splitChars :: "ctx \<Rightarrow> real \<Rightarrow> jsstring \<Rightarrow> jsstring list \<times> jsstring \<Rightarrow> jsstring list \<times> jsstring" where
  "splitChars c maxW [] (lines, chunk) = (lines, chunk)"
| "splitChars c maxW (ch # t) (lines, chunk) =
     (let test2 = chunk @ [ch] in
      if measureText c test2 \<le> maxW then splitChars c maxW t (lines, test2)
      else splitChars c maxW t (if chunk \<noteq> [] then lines @ [chunk] else lines, [ch]))"

text \<open>The outer loop over the tokens; the state is \<open>(lines, line)\<close>.\<close>

fun wrapTokens :: "ctx \<Rightarrow> real \<Rightarrow> jsstring list \<Rightarrow> jsstring list \<times> jsstring \<Rightarrow> jsstring list \<times> jsstring" where
  "wrapTokens c maxW [] (lines, line) = (lines, line)"
| "wrapTokens c maxW (t # ts) (lines, line) =
     (let test = (if line \<noteq> [] then line @ [32] @ t else t) in
      if measureText c test \<le> maxW then wrapTokens c maxW ts (lines, test)
      else if line \<noteq> [] then wrapTokens c maxW ts (lines @ [line], t)
      else (case splitChars c maxW t (lines, []) of
              (lines', chunk) \<Rightarrow>
                wrapTokens c maxW ts (lines', if chunk \<noteq> [] then chunk else [])))"

definition wrapByWidth :: "ctx \<Rightarrow> jsstring \<Rightarrow> real \<Rightarrow> jsstring list" where
  "wrapByWidth c text maxW =
     (if text = [] then []
      else (case wrapTokens c maxW (tokenizeWords text) ([], []) of
              (lines, line) \<Rightarrow> if line \<noteq> [] then lines @ [line] else lines))"

definition nonSpace :: "jsstring \<Rightarrow> jsstring" where
  \<comment> \<open>the characters of a string that are not white space, in order\<close>
  "nonSpace s = filter (\<lambda>c. \<not> isSpace c) s"


section \<open>Paragraph fitter\<close>

definition measureParagraph :: "ctx \<Rightarrow> jsstring \<Rightarrow> real \<Rightarrow> int \<Rightarrow> jsstring list \<times> int" where
  \<comment> \<open>the object \<^verbatim>\<open>{ lines, height }\<close> as a pair\<close>
  "measureParagraph c text maxW lh =
     (let wrappedLines = wrapByWidth c text maxW in (wrappedLines, int (length wrappedLines) * lh))"

record fit =
  fontPx :: int
  lineHeight :: int

record parFit = fit +
  lines :: "jsstring list"

text \<open>
  Font sizes are integers, \<^verbatim>\<open>Math.floor((lo + hi) / 2)\<close> is \<open>(lo + hi) div 2\<close> and
  \<^verbatim>\<open>Math.ceil(mid * lineGap)\<close> is the ceiling of the product. The argument
  \<open>lineGap\<close> is the real value of the double passed, and the product
  \<^verbatim>\<open>mid * lineGap\<close> is taken over the reals. The loop state is
  \<open>(ctx, best, bestLines)\<close>; the bounds \<open>lo\<close> and \<open>hi\<close> are arguments.
\<close>

function fitParLoop ::
  "jsstring \<Rightarrow> real \<Rightarrow> real \<Rightarrow> jsstring \<Rightarrow> real \<Rightarrow> int \<Rightarrow> int \<Rightarrow> ctx \<times> int \<times> jsstring list
     \<Rightarrow> ctx \<times> int \<times> jsstring list" where
  "fitParLoop text maxW maxH quoted lineGap lo hi (c, best, bestLines) =
     (if lo \<le> hi then
        (let mid = (lo + hi) div 2;
             c' = c\<lparr>font := \<lparr>weight = None, sizePx = mid, family = quoted\<rparr>\<rparr>;
             lh = \<lceil>of_int mid * lineGap\<rceil>;
             m = measureParagraph c' text maxW lh
         in if of_int (snd m) \<le> maxH
            then fitParLoop text maxW maxH quoted lineGap (mid + 1) hi (c', mid, fst m)
            else fitParLoop text maxW maxH quoted lineGap lo (mid - 1) (c', best, bestLines))
      else (c, best, bestLines))"
  by pat_completeness auto
termination
  by (relation "measure (\<lambda>(text, maxW, maxH, quoted, lineGap, lo, hi, st). nat (hi - lo + 1))") auto

declare fitParLoop.simps [simp del]

definition fitFontBinaryParagraph ::
  "ctx \<Rightarrow> jsstring \<Rightarrow> real \<Rightarrow> real \<Rightarrow> int \<Rightarrow> int \<Rightarrow> jsstring \<Rightarrow> real \<Rightarrow> parFit \<times> ctx" where
  "fitFontBinaryParagraph c text maxW maxH minPx maxPx fontFamilyName lineGap =
     (let quoted = quoteFontName fontFamilyName in
      case fitParLoop text maxW maxH quoted lineGap minPx maxPx (c, minPx, []) of
        (c1, best, bestLines) \<Rightarrow>
          (let lh = \<lceil>of_int best * lineGap\<rceil>;
               c2 = c1\<lparr>font := \<lparr>weight = None, sizePx = best, family = quoted\<rparr>\<rparr>;
               final = measureParagraph c2 text maxW lh
           in (\<lparr>fontPx = best, lineHeight = lh, lines = fst final\<rparr>, c2)))"

text \<open>
  The lines of a paragraph wrapped at font size \<open>s\<close>, and the test that the paragraph
  fits at that size: line count times \<open>\<lceil>s * lineGap\<rceil>\<close> is at most \<open>maxH\<close>.
\<close>

definition linesAt :: "ctx \<Rightarrow> jsstring \<Rightarrow> real \<Rightarrow> jsstring \<Rightarrow> int \<Rightarrow> jsstring list" where
  "linesAt c text maxW fontFamilyName s =
     wrapByWidth (c\<lparr>font := \<lparr>weight = None, sizePx = s, family = quoteFontName fontFamilyName\<rparr>\<rparr>) text maxW"

definition parFits :: "ctx \<Rightarrow> jsstring \<Rightarrow> real \<Rightarrow> real \<Rightarrow> jsstring \<Rightarrow> real \<Rightarrow> int \<Rightarrow> bool" where
  "parFits c text maxW maxH fontFamilyName lineGap s =
     (of_int (int (length (linesAt c text maxW fontFamilyName s)) * \<lceil>of_int s * lineGap\<rceil>) \<le> maxH)"

section \<open>Table fitter\<close>

text \<open>
  A table row \<^verbatim>\<open>{ key, value }\<close>; the field \<^verbatim>\<open>value\<close> is named \<open>val\<close> here. The
  fields \<^verbatim>\<open>fontPx\<close> and \<^verbatim>\<open>lineHeight\<close>, common to the results of both fitters,
  are the record \<open>fit\<close>.
\<close>

record row =
  key :: jsstring
  val :: jsstring

record wrappedRow =
  left :: "jsstring list"
  right :: "jsstring list"
  rowH :: int

record tableFit = fit +
  wrapped :: "wrappedRow list"

text \<open>
  The gap between rows, \<^verbatim>\<open>Math.round(lh * 0.35)\<close>. The literal \<^verbatim>\<open>0.35\<close> is the double
  \<open>6305039478318694 / 2 ^ 54\<close>, and the product of the line height with it is rounded
  to the nearest double: the exact product is kept to 53 significant bits, a tie going to
  the even significand. So \<^verbatim>\<open>90 * 0.35\<close> is the double just below 31.5, while
  \<^verbatim>\<open>10 * 0.35\<close> is 3.5. \<^verbatim>\<open>Math.round\<close> then rounds to the nearest integer, a half
  going upwards. Line heights are integers below \<open>2 ^ 53\<close> in absolute value.
\<close>

function bitLength :: "int \<Rightarrow> nat" where
  \<comment> \<open>the number of binary digits of a positive integer\<close>
  "bitLength n = (if n \<le> 0 then 0 else Suc (bitLength (n div 2)))"
  by pat_completeness auto
termination
  by (relation "measure nat") auto

declare bitLength.simps [simp del]

definition gapProduct :: "int \<Rightarrow> real" where
  \<comment> \<open>the double \<^verbatim>\<open>lh * 0.35\<close>\<close>
  "gapProduct lh =
     (let n = \<bar>lh\<bar> * 6305039478318694;
          k = bitLength n - 53;
          q = n div 2 ^ k;
          r = n mod 2 ^ k;
          m = (if 2 ^ k < 2 * r \<or> (2 * r = 2 ^ k \<and> odd q) then q + 1 else q)
      in of_int (sgn lh * (m * 2 ^ k)) / 2 ^ 54)"

definition rowGap :: "int \<Rightarrow> int" where
  "rowGap lh = round (gapProduct lh)"

text \<open>
  The loop over the rows at one candidate size; the state is
  \<open>(ctx, wrapped, totalH)\<close>. The key is measured with weight 600, the value without a
  weight.
\<close>

fun wrapRows ::
  "jsstring \<Rightarrow> real \<Rightarrow> real \<Rightarrow> int \<Rightarrow> int \<Rightarrow> row list \<Rightarrow> ctx \<times> wrappedRow list \<times> int
     \<Rightarrow> ctx \<times> wrappedRow list \<times> int" where
  "wrapRows quoted colLeftW colRightW mid lh [] st = st"
| "wrapRows quoted colLeftW colRightW mid lh (r # rs) (c, ws, totalH) =
     (let c1 = c\<lparr>font := \<lparr>weight = Some 600, sizePx = mid, family = quoted\<rparr>\<rparr>;
          leftLines = wrapByWidth c1 (key r) colLeftW;
          c2 = c1\<lparr>font := \<lparr>weight = None, sizePx = mid, family = quoted\<rparr>\<rparr>;
          rightLines = wrapByWidth c2 (val r) colRightW;
          h = int (max (length leftLines) (length rightLines)) * lh
      in wrapRows quoted colLeftW colRightW mid lh rs
           (c2, ws @ [\<lparr>left = leftLines, right = rightLines, rowH = h\<rparr>], totalH + (h + rowGap lh)))"

text \<open>
  One pass of the search loop's body up to the test: the context after the rows, the
  wrapped rows and the total height after the correction by one gap.
\<close>

definition tableAt ::
  "jsstring \<Rightarrow> real \<Rightarrow> real \<Rightarrow> real \<Rightarrow> row list \<Rightarrow> int \<Rightarrow> ctx \<Rightarrow> ctx \<times> wrappedRow list \<times> int" where
  "tableAt quoted colLeftW colRightW lineGap rows mid c =
     (let lh = \<lceil>of_int mid * lineGap\<rceil> in
      case wrapRows quoted colLeftW colRightW mid lh rows (c, [], 0) of
        (c1, ws, totalH) \<Rightarrow> (c1, ws, if totalH > 0 then totalH - rowGap lh else totalH))"

function fitTableLoop ::
  "row list \<Rightarrow> real \<Rightarrow> real \<Rightarrow> real \<Rightarrow> jsstring \<Rightarrow> real \<Rightarrow> int \<Rightarrow> int \<Rightarrow> ctx \<times> int \<times> tableFit option
     \<Rightarrow> ctx \<times> int \<times> tableFit option" where
  "fitTableLoop rows colLeftW colRightW maxH quoted lineGap lo hi (c, best, bestResult) =
     (if lo \<le> hi then
        (let mid = (lo + hi) div 2;
             lh = \<lceil>of_int mid * lineGap\<rceil>
         in case tableAt quoted colLeftW colRightW lineGap rows mid c of
              (c1, ws, totalH) \<Rightarrow>
                if of_int totalH \<le> maxH
                then fitTableLoop rows colLeftW colRightW maxH quoted lineGap (mid + 1) hi
                       (c1, mid, Some \<lparr>fontPx = mid, lineHeight = lh, wrapped = ws\<rparr>)
                else fitTableLoop rows colLeftW colRightW maxH quoted lineGap lo (mid - 1)
                       (c1, best, bestResult))
      else (c, best, bestResult))"
  by pat_completeness auto
termination
  by (relation "measure (\<lambda>(rows, colLeftW, colRightW, maxH, quoted, lineGap, lo, hi, st). nat (hi - lo + 1))")
    auto

declare fitTableLoop.simps [simp del]

definition fallbackRow :: "ctx \<Rightarrow> real \<Rightarrow> real \<Rightarrow> row \<Rightarrow> wrappedRow" where
  \<comment> \<open>the arrow function of the fallback; the context's font is the one left by the loop\<close>
  "fallbackRow c colLeftW colRightW r =
     \<lparr>left = wrapByWidth c (key r) colLeftW,
      right = wrapByWidth c (val r) colRightW,
      rowH = max 1 (max (int (length (wrapByWidth c (key r) colLeftW)))
                        (int (length (wrapByWidth c (val r) colRightW))))\<rparr>"

definition fitFontBinaryTable ::
  "ctx \<Rightarrow> row list \<Rightarrow> real \<Rightarrow> real \<Rightarrow> real \<Rightarrow> int \<Rightarrow> int \<Rightarrow> jsstring \<Rightarrow> real \<Rightarrow> tableFit \<times> ctx" where
  "fitFontBinaryTable c rows colLeftW colRightW maxH minPx maxPx fontFamilyName lineGap =
     (let quoted = quoteFontName fontFamilyName in
      case fitTableLoop rows colLeftW colRightW maxH quoted lineGap minPx maxPx (c, minPx, None) of
        (c1, best, bestResult) \<Rightarrow>
          (case bestResult of
             Some res \<Rightarrow> (res, c1)
           | None \<Rightarrow>
               (let fallbackLh = \<lceil>of_int minPx * lineGap\<rceil>;
                    fallback = map (fallbackRow c1 colLeftW colRightW) rows
                in (\<lparr>fontPx = minPx, lineHeight = fallbackLh, wrapped = fallback\<rparr>, c1))))"

text \<open>
  The total height the search loop computes for the table at font size \<open>s\<close>, and the
  test that the table fits at that size.
\<close>

definition tableHeightAt ::
  "ctx \<Rightarrow> row list \<Rightarrow> real \<Rightarrow> real \<Rightarrow> jsstring \<Rightarrow> real \<Rightarrow> int \<Rightarrow> int" where
  "tableHeightAt c rows colLeftW colRightW fontFamilyName lineGap s =
     snd (snd (tableAt (quoteFontName fontFamilyName) colLeftW colRightW lineGap rows s c))"

definition tableFits ::
  "ctx \<Rightarrow> row list \<Rightarrow> real \<Rightarrow> real \<Rightarrow> real \<Rightarrow> jsstring \<Rightarrow> real \<Rightarrow> int \<Rightarrow> bool" where
  "tableFits c rows colLeftW colRightW maxH fontFamilyName lineGap s =
     (of_int (tableHeightAt c rows colLeftW colRightW fontFamilyName lineGap s) \<le> maxH)"

definition drawnHeight :: "tableFit \<Rightarrow> int" where
  \<comment> \<open>how far \<^verbatim>\<open>rowY\<close> advances over the rows when the table is drawn\<close>
  "drawnHeight t = sum_list (map (\<lambda>w. rowH w + rowGap (lineHeight t)) (wrapped t))"

section \<open>Parsing the raw text\<close>

definition trim :: "jsstring \<Rightarrow> jsstring" where
  "trim s = rev (dropWhile isSpace (rev (dropWhile isSpace s)))"

definition lineOr :: "jsstring list \<Rightarrow> nat \<Rightarrow> jsstring" where
  \<comment> \<open>\<^verbatim>\<open>lines[i] || ""\<close>: an index past the end reads as the empty string\<close>
  "lineOr ls i = (if i < length ls then ls ! i else [])"

record content =
  title :: jsstring
  subtitle :: jsstring
  pairs :: "row list"

function pairsLoop :: "jsstring list \<Rightarrow> nat \<Rightarrow> row list \<Rightarrow> row list" where
  "pairsLoop ls i ps =
     (if i < length ls then
        (let k = lineOr ls i; v = lineOr ls (i + 1)
         in pairsLoop ls (i + 2) (if k \<noteq> [] \<or> v \<noteq> [] then ps @ [\<lparr>key = k, val = v\<rparr>] else ps))
      else ps)"
  by pat_completeness auto
termination
  by (relation "measure (\<lambda>(ls, i, ps). length ls - i)") auto

declare pairsLoop.simps [simp del]

definition parseLines :: "jsstring \<Rightarrow> jsstring list" where
  \<comment> \<open>\<^verbatim>\<open>replace(/\r/g, "").split("\n").map(l => l.trim()).filter(Boolean)\<close>\<close>
  "parseLines inputText =
     filter (\<lambda>l. l \<noteq> []) (map trim (splitBy (\<lambda>c. c = 10) (filter (\<lambda>c. c \<noteq> 13) inputText)))"

definition parseContent :: "jsstring \<Rightarrow> content" where
  "parseContent inputText =
     (let ls = parseLines inputText
      in \<lparr>title = lineOr ls 0, subtitle = lineOr ls 1, pairs = pairsLoop ls 2 []\<rparr>)"

text \<open>
  The content model in the words of the specification: the lines are the pieces between
  newlines, trimmed, the blank ones left out; the title is the first, the subtitle the
  second, and the rest is taken two at a time, a pair being kept when either side is
  non-empty.
\<close>

definition specLines :: "jsstring \<Rightarrow> jsstring list" where
  "specLines text = filter (\<lambda>l. l \<noteq> []) (map trim (splitBy (\<lambda>c. c = 10) text))"

fun pairUp :: "jsstring list \<Rightarrow> row list" where
  "pairUp (k # v # rest) = \<lparr>key = k, val = v\<rparr> # pairUp rest"
| "pairUp [k] = [\<lparr>key = k, val = []\<rparr>]"
| "pairUp [] = []"

definition specContent :: "jsstring \<Rightarrow> content" where
  "specContent text =
     (let ls = specLines text
      in \<lparr>title = (case ls of [] \<Rightarrow> [] | t # rest \<Rightarrow> t),
          subtitle = (case drop 1 ls of [] \<Rightarrow> [] | t # rest \<Rightarrow> t),
          pairs = filter (\<lambda>p. key p \<noteq> [] \<or> val p \<noteq> []) (pairUp (drop 2 ls))\<rparr>)"

section \<open>Sample measurers and contexts\<close>

text \<open>
  The inputs at which the properties are evaluated: strings written as literals and a
  measurer under which every character is as wide as the font size.
\<close>

definition fromString :: "string \<Rightarrow> jsstring" where
  "fromString s = map of_char s"

definition emWidth :: "font \<Rightarrow> jsstring \<Rightarrow> real" where
  \<comment> \<open>every character is as wide as the font size\<close>
  "emWidth f s = of_int (sizePx f) * of_nat (length s)"

definition ctxAt :: "int \<Rightarrow> ctx" where
  \<comment> \<open>a context measuring with \<open>emWidth\<close> whose font was last set to the given size\<close>
  "ctxAt s = \<lparr>font = \<lparr>weight = None, sizePx = s, family = fromString ''serif''\<rparr>, measurer = emWidth\<rparr>"

definition sampleRows :: "row list" where
  "sampleRows = [\<lparr>key = fromString ''ab'', val = fromString ''c''\<rparr>]"

section \<open>Properties of the word wrapper\<close>

lemma chunk_or_empty: "(if chunk \<noteq> [] then chunk else []) = (chunk :: jsstring)"
  by simp

lemma splitChars_no_empty:
  "splitChars c maxW t (ls0, chunk) = (ls', chunk') \<Longrightarrow> [] \<notin> set ls0 \<Longrightarrow> [] \<notin> set ls'"
proof (induction t arbitrary: ls0 chunk)
  case Nil
  then show ?case by simp
next
  case (Cons ch t)
  show ?case
  proof (cases "measureText c (chunk @ [ch]) \<le> maxW")
    case True
    with Cons.prems have "splitChars c maxW t (ls0, chunk @ [ch]) = (ls', chunk')"
      by simp
    from Cons.IH [OF this Cons.prems(2)] show ?thesis .
  next
    case False
    let ?ls = "if chunk \<noteq> [] then ls0 @ [chunk] else ls0"
    from False Cons.prems have run: "splitChars c maxW t (?ls, [ch]) = (ls', chunk')"
      by simp
    from Cons.prems(2) have "[] \<notin> set ?ls" by simp
    from Cons.IH [OF run this] show ?thesis .
  qed
qed

lemma wrapTokens_no_empty:
  "wrapTokens c maxW ts (ls0, line) = (ls', line') \<Longrightarrow> [] \<notin> set ls0 \<Longrightarrow> [] \<notin> set ls'"
proof (induction ts arbitrary: ls0 line)
  case Nil
  then show ?case by simp
next
  case (Cons t ts)
  let ?test = "if line \<noteq> [] then line @ [32] @ t else t"
  consider (fits) "measureText c ?test \<le> maxW"
    | (break) "\<not> measureText c ?test \<le> maxW" "line \<noteq> []"
    | (chars) "\<not> measureText c ?test \<le> maxW" "line = []"
    by blast
  then show ?case
  proof cases
    case fits
    with Cons.prems have "wrapTokens c maxW ts (ls0, ?test) = (ls', line')"
      by (simp add: Let_def)
    from Cons.IH [OF this Cons.prems(2)] show ?thesis .
  next
    case break
    with Cons.prems have run: "wrapTokens c maxW ts (ls0 @ [line], t) = (ls', line')"
      by (simp add: Let_def)
    from break Cons.prems(2) have "[] \<notin> set (ls0 @ [line])" by simp
    from Cons.IH [OF run this] show ?thesis .
  next
    case chars
    obtain ls ch where sc: "splitChars c maxW t (ls0, []) = (ls, ch)"
      by (cases "splitChars c maxW t (ls0, [])")
    with chars Cons.prems have run: "wrapTokens c maxW ts (ls, ch) = (ls', line')"
      by (simp add: Let_def chunk_or_empty)
    from splitChars_no_empty [OF sc Cons.prems(2)] have "[] \<notin> set ls" .
    from Cons.IH [OF run this] show ?thesis .
  qed
qed

text \<open>
  Claim C10. Every line returned by \<open>wrapByWidth\<close> is a non-empty string, whatever
  the text, the width and the measurer.
\<close>

theorem wrapByWidth_lines_nonempty: "[] \<notin> set (wrapByWidth c text maxW)"
proof (cases "text = []")
  case True
  then show ?thesis by (simp add: wrapByWidth_def)
next
  case False
  obtain ls l where run: "wrapTokens c maxW (tokenizeWords text) ([], []) = (ls, l)"
    by (cases "wrapTokens c maxW (tokenizeWords text) ([], [])")
  from wrapTokens_no_empty [OF run] have "[] \<notin> set ls" by simp
  with False run show ?thesis by (simp add: wrapByWidth_def)
qed

lemma splitBy_not_Nil: "splitBy p s \<noteq> []"
  by (induction s) (auto split: list.splits)

lemma concat_splitBy: "concat (splitBy p s) = filter (\<lambda>c. \<not> p c) s"
proof (induction s)
  case Nil
  then show ?case by simp
next
  case (Cons a s)
  obtain w ws where "splitBy p s = w # ws"
    using splitBy_not_Nil [of p s] by (cases "splitBy p s") auto
  with Cons show ?case by auto
qed

lemma concat_drop_empty: "concat (filter (\<lambda>w. w \<noteq> []) xs) = concat xs"
  by (induction xs) auto

lemma concat_tokenizeWords: "concat (tokenizeWords text) = nonSpace text"
  by (simp add: tokenizeWords_def nonSpace_def concat_drop_empty concat_splitBy)

lemma isSpace_blank: "isSpace 32"
  by (simp add: isSpace_def)

lemma splitChars_chars:
  "splitChars c maxW t (ls0, chunk) = (ls', chunk') \<Longrightarrow> concat ls' @ chunk' = concat ls0 @ chunk @ t"
proof (induction t arbitrary: ls0 chunk)
  case Nil
  then show ?case by simp
next
  case (Cons ch t)
  show ?case
  proof (cases "measureText c (chunk @ [ch]) \<le> maxW")
    case True
    with Cons.prems have "splitChars c maxW t (ls0, chunk @ [ch]) = (ls', chunk')"
      by simp
    from Cons.IH [OF this] show ?thesis by simp
  next
    case False
    let ?ls = "if chunk \<noteq> [] then ls0 @ [chunk] else ls0"
    from False Cons.prems have "splitChars c maxW t (?ls, [ch]) = (ls', chunk')"
      by simp
    from Cons.IH [OF this] show ?thesis by simp
  qed
qed

lemma wrapTokens_chars:
  "wrapTokens c maxW ts (ls0, line) = (ls', line') \<Longrightarrow>
     nonSpace (concat ls' @ line') = nonSpace (concat ls0 @ line) @ nonSpace (concat ts)"
proof (induction ts arbitrary: ls0 line)
  case Nil
  then show ?case by (simp add: nonSpace_def)
next
  case (Cons t ts)
  let ?test = "if line \<noteq> [] then line @ [32] @ t else t"
  consider (fits) "measureText c ?test \<le> maxW"
    | (break) "\<not> measureText c ?test \<le> maxW" "line \<noteq> []"
    | (chars) "\<not> measureText c ?test \<le> maxW" "line = []"
    by blast
  then show ?case
  proof cases
    case fits
    with Cons.prems have "wrapTokens c maxW ts (ls0, ?test) = (ls', line')"
      by (simp add: Let_def)
    from Cons.IH [OF this] show ?thesis
      by (simp add: nonSpace_def isSpace_blank)
  next
    case break
    with Cons.prems have "wrapTokens c maxW ts (ls0 @ [line], t) = (ls', line')"
      by (simp add: Let_def)
    from Cons.IH [OF this] show ?thesis
      by (simp add: nonSpace_def)
  next
    case chars
    obtain ls ch where sc: "splitChars c maxW t (ls0, []) = (ls, ch)"
      by (cases "splitChars c maxW t (ls0, [])")
    with chars Cons.prems have "wrapTokens c maxW ts (ls, ch) = (ls', line')"
      by (simp add: Let_def chunk_or_empty)
    from Cons.IH [OF this] splitChars_chars [OF sc] chars(2) show ?thesis
      by (simp add: nonSpace_def)
  qed
qed

lemma nonSpace_wrapByWidth: "nonSpace (concat (wrapByWidth c text maxW)) = nonSpace text"
proof (cases "text = []")
  case True
  then show ?thesis by (simp add: wrapByWidth_def)
next
  case False
  obtain ls l where run: "wrapTokens c maxW (tokenizeWords text) ([], []) = (ls, l)"
    by (cases "wrapTokens c maxW (tokenizeWords text) ([], [])")
  have "nonSpace (concat (wrapByWidth c text maxW)) = nonSpace (concat ls @ l)"
    using False run by (simp add: wrapByWidth_def)
  also have "\<dots> = nonSpace (concat (tokenizeWords text))"
    using wrapTokens_chars [OF run] by (simp add: nonSpace_def)
  also have "\<dots> = nonSpace text"
    by (simp add: concat_tokenizeWords nonSpace_def)
  finally show ?thesis .
qed

text \<open>
  Claim C4. The wrapper drops no character: the characters of the returned lines that
  are not white space are, in order, exactly the characters of the tokens of the input,
  so the concatenated tokens are a subsequence of the concatenated lines.
\<close>

theorem wrapByWidth_keeps_characters:
  "nonSpace (concat (wrapByWidth c text maxW)) = concat (tokenizeWords text)
   \<and> subseq (concat (tokenizeWords text)) (concat (wrapByWidth c text maxW))"
proof -
  have eq: "nonSpace (concat (wrapByWidth c text maxW)) = concat (tokenizeWords text)"
    by (simp add: nonSpace_wrapByWidth concat_tokenizeWords)
  have "subseq (nonSpace (concat (wrapByWidth c text maxW))) (concat (wrapByWidth c text maxW))"
    unfolding nonSpace_def by (rule subseq_filter_left)
  with eq show ?thesis by simp
qed

lemma measureText_ctxAt: "measureText (ctxAt s) t = of_int s * of_nat (length t)"
  by (simp add: measureText_def ctxAt_def emWidth_def)

lemma long_word_text: "fromString ''a bbbbbbbbbb'' = [97, 32, 98, 98, 98, 98, 98, 98, 98, 98, 98, 98]"
  by (simp add: fromString_def)

lemma long_word: "fromString ''bbbbbbbbbb'' = [98, 98, 98, 98, 98, 98, 98, 98, 98, 98]"
  by (simp add: fromString_def)

lemma short_words: "fromString ''a'' = [97]" "fromString ''b'' = [98]" "fromString ''bbb'' = [98, 98, 98]"
  by (simp_all add: fromString_def)

lemma long_word_tokens:
  "tokenizeWords [97, 32, 98, 98, 98, 98, 98, 98, 98, 98, 98, 98] = [[97], [98, 98, 98, 98, 98, 98, 98, 98, 98, 98]]"
  by (simp add: tokenizeWords_def isSpace_def)

lemma long_word_token:
  "tokenizeWords [98, 98, 98, 98, 98, 98, 98, 98, 98, 98] = [[98, 98, 98, 98, 98, 98, 98, 98, 98, 98]]"
  by (simp add: tokenizeWords_def isSpace_def)

text \<open>
  Claim C1, at a failing input. With every character 10 wide and a maximal width of 30,
  the text \<open>a bbbbbbbbbb\<close> is wrapped into the lines \<open>a\<close> and \<open>bbbbbbbbbb\<close>: the
  second token does not start on an empty line, so it is not split, and the line of
  width 100 is returned although a single character, of width 10, fits.
\<close>

theorem wrapByWidth_overwide_line:
  "wrapByWidth (ctxAt 10) (fromString ''a bbbbbbbbbb'') 30 = [fromString ''a'', fromString ''bbbbbbbbbb'']
   \<and> measureText (ctxAt 10) (fromString ''bbbbbbbbbb'') = 100
   \<and> measureText (ctxAt 10) (fromString ''b'') = 10"
  by (simp add: long_word_text long_word short_words wrapByWidth_def long_word_tokens
      measureText_ctxAt Let_def)

text \<open>
  Claim C9, at a failing input. The line \<open>bbbbbbbbbb\<close> returned above, wrapped again
  as a paragraph of its own with the same width and font, starts on an empty line and is
  split into four chunks.
\<close>

theorem wrapByWidth_rewrap_differs:
  "fromString ''bbbbbbbbbb'' \<in> set (wrapByWidth (ctxAt 10) (fromString ''a bbbbbbbbbb'') 30)
   \<and> wrapByWidth (ctxAt 10) (fromString ''bbbbbbbbbb'') 30
       = [fromString ''bbb'', fromString ''bbb'', fromString ''bbb'', fromString ''b'']"
  by (simp add: long_word_text long_word short_words wrapByWidth_def long_word_tokens
      long_word_token measureText_ctxAt Let_def)

subsection \<open>Narrower glyphs never give more lines\<close>








section \<open>Properties of the parser\<close>

lemma pairsLoop_pairUp:
  "pairsLoop ls i ps = ps @ filter (\<lambda>p. key p \<noteq> [] \<or> val p \<noteq> []) (pairUp (drop i ls))"
proof (induction ls i ps rule: pairsLoop.induct)
  case (1 ls i ps)
  show ?case
  proof (cases "i < length ls")
    case False
    then show ?thesis by (subst pairsLoop.simps) simp
  next
    case True
    note inside = True
    let ?k = "lineOr ls i" and ?v = "lineOr ls (i + 1)"
    let ?ps = "if ?k \<noteq> [] \<or> ?v \<noteq> [] then ps @ [\<lparr>key = ?k, val = ?v\<rparr>] else ps"
    have step: "pairsLoop ls i ps = pairsLoop ls (i + 2) ?ps"
      using inside by (subst pairsLoop.simps) (simp add: Let_def)
    have ih: "pairsLoop ls (i + 2) ?ps
                = ?ps @ filter (\<lambda>p. key p \<noteq> [] \<or> val p \<noteq> []) (pairUp (drop (i + 2) ls))"
      using "1.IH" [OF inside refl refl] .
    show ?thesis
    proof (cases "i + 1 < length ls")
      case True
      have "drop i ls = ls ! i # ls ! (i + 1) # drop (i + 2) ls"
        using inside True by (simp add: Cons_nth_drop_Suc)
      with step ih inside True show ?thesis
        by (simp add: lineOr_def)
    next
      case False
      with inside have last: "drop i ls = [ls ! i]" "drop (i + 2) ls = []"
        using Cons_nth_drop_Suc [of i ls] by auto
      with step ih inside False show ?thesis
        by (simp add: lineOr_def)
    qed
  qed
qed

lemma lineOr_first: "lineOr ls 0 = (case ls of [] \<Rightarrow> [] | t # rest \<Rightarrow> t)"
  by (cases ls) (simp_all add: lineOr_def)

lemma lineOr_second: "lineOr ls (Suc 0) = (case drop (Suc 0) ls of [] \<Rightarrow> [] | t # rest \<Rightarrow> t)"
proof (cases ls)
  case Nil
  then show ?thesis by (simp add: lineOr_def)
next
  case (Cons a rest)
  then show ?thesis by (cases rest) (simp_all add: lineOr_def)
qed

text \<open>
  Claim C5, as amended. The parser first deletes every carriage return from the raw
  text. Of the text so obtained, the title is the first non-empty trimmed line, the
  subtitle the second, and the pairs are the remaining non-empty lines taken two at a
  time in order, a pair being kept when either side is non-empty; a last line without a
  partner is paired with the empty string.
\<close>

theorem parseContent_after_cr_removal:
  "parseContent inputText = specContent (filter (\<lambda>c. c \<noteq> 13) inputText)"
proof -
  have "parseLines inputText = specLines (filter (\<lambda>c. c \<noteq> 13) inputText)"
    by (simp add: parseLines_def specLines_def)
  then show ?thesis
    by (simp add: parseContent_def specContent_def Let_def lineOr_first lineOr_second
        pairsLoop_pairUp)
qed

text \<open>
  Claim C5 as stated fails on a text with a carriage return inside a line: for the text
  \<open>a\<close>, carriage return, \<open>b\<close> the only line is the whole text, whose trimmed form
  keeps the carriage return, while the parser's title is \<open>ab\<close>.
\<close>

theorem parseContent_cr_counterexample:
  "title (parseContent [97, 13, 98]) = [97, 98] \<and> title (specContent [97, 13, 98]) = [97, 13, 98]"
  by (simp add: parseContent_def parseLines_def specContent_def specLines_def lineOr_def
      trim_def isSpace_def Let_def pairsLoop.simps)

lemma sample_text:
  "fromString ''Job\<newline>\<newline> Dept \<newline>Age\<newline>25\<newline>Pay''
     = [74, 111, 98, 10, 10, 32, 68, 101, 112, 116, 32, 10, 65, 103, 101, 10, 50, 53, 10, 80, 97, 121]"
  by (simp add: fromString_def)

lemma sample_parts:
  "fromString ''Job'' = [74, 111, 98]" "fromString ''Dept'' = [68, 101, 112, 116]"
  "fromString ''Age'' = [65, 103, 101]" "fromString ''25'' = [50, 53]" "fromString ''Pay'' = [80, 97, 121]"
  by (simp_all add: fromString_def)

lemma sample_lines:
  "specLines [74, 111, 98, 10, 10, 32, 68, 101, 112, 116, 32, 10, 65, 103, 101, 10, 50, 53, 10, 80, 97, 121]
     = [[74, 111, 98], [68, 101, 112, 116], [65, 103, 101], [50, 53], [80, 97, 121]]"
  by (simp add: specLines_def trim_def isSpace_def)

text \<open>
  Claim C5 as amended, at a sample text with a blank line, a line to be trimmed and an
  odd number of lines after the subtitle.
\<close>

theorem parseContent_witness:
  "parseContent (fromString ''Job\<newline>\<newline> Dept \<newline>Age\<newline>25\<newline>Pay'')
     = \<lparr>title = fromString ''Job'', subtitle = fromString ''Dept'',
        pairs = [\<lparr>key = fromString ''Age'', val = fromString ''25''\<rparr>,
                 \<lparr>key = fromString ''Pay'', val = []\<rparr>]\<rparr>"
  using parseContent_after_cr_removal [of "fromString ''Job\<newline>\<newline> Dept \<newline>Age\<newline>25\<newline>Pay''"]
  by (simp add: sample_text sample_parts specContent_def sample_lines)

section \<open>Properties of the table fitter\<close>

lemma ctx_font_eq: "measurer c = measurer d \<Longrightarrow> c\<lparr>font := f\<rparr> = (d\<lparr>font := f\<rparr> :: ctx)"
  by (cases c, cases d) simp

lemma wrapRows_ctx_indep:
  "measurer c = measurer d \<Longrightarrow>
     wrapRows q l r mid lh (x # xs) (c, ws, t) = wrapRows q l r mid lh (x # xs) (d, ws, t)"
  by (simp add: Let_def ctx_font_eq [of c d])

lemma wrapRows_ctx:
  "fst (wrapRows q l r mid lh rows (c, ws, t))
     = (if rows = [] then c else c\<lparr>font := \<lparr>weight = None, sizePx = mid, family = q\<rparr>\<rparr>)"
proof (induction rows arbitrary: c ws t)
  case Nil
  then show ?case by simp
next
  case (Cons x xs)
  show ?case by (simp add: Let_def Cons.IH)
qed

lemma tableAt_ctx:
  "fst (tableAt q l r g rows mid c)
     = (if rows = [] then c else c\<lparr>font := \<lparr>weight = None, sizePx = mid, family = q\<rparr>\<rparr>)"
proof -
  obtain c1 ws t where run: "wrapRows q l r mid \<lceil>of_int mid * g\<rceil> rows (c, [], 0) = (c1, ws, t)"
    by (cases "wrapRows q l r mid \<lceil>of_int mid * g\<rceil> rows (c, [], 0)")
  with wrapRows_ctx [of q l r mid "\<lceil>of_int mid * g\<rceil>" rows c "[]" 0] show ?thesis
    by (simp add: tableAt_def Let_def)
qed

lemma tableAt_ctx_indep:
  "measurer c = measurer d \<Longrightarrow> snd (tableAt q l r g rows mid c) = snd (tableAt q l r g rows mid d)"
proof (cases rows)
  case Nil
  then show ?thesis by (simp add: tableAt_def)
next
  case (Cons x xs)
  assume "measurer c = measurer d"
  from wrapRows_ctx_indep [OF this] Cons show ?thesis
    by (simp only: tableAt_def Let_def)
qed

lemma tableAt_measurer: "measurer (fst (tableAt q l r g rows mid c)) = measurer c"
  by (simp add: tableAt_ctx)

lemma tableAt_empty: "tableAt q l r g [] mid c = (c, [], 0)"
  by (simp add: tableAt_def)


lemma fitTableLoop_stop:
  "\<not> lo \<le> hi \<Longrightarrow> fitTableLoop rows l r maxH q g lo hi (c, best, br) = (c, best, br)"
  by (subst fitTableLoop.simps) simp

lemma fitTableLoop_step:
  "lo \<le> hi \<Longrightarrow>
     fitTableLoop rows l r maxH q g lo hi (c, best, br) =
       (if of_int (snd (snd (tableAt q l r g rows ((lo + hi) div 2) c))) \<le> maxH
        then fitTableLoop rows l r maxH q g ((lo + hi) div 2 + 1) hi
               (fst (tableAt q l r g rows ((lo + hi) div 2) c), (lo + hi) div 2,
                Some \<lparr>fontPx = (lo + hi) div 2, lineHeight = \<lceil>of_int ((lo + hi) div 2) * g\<rceil>,
                      wrapped = fst (snd (tableAt q l r g rows ((lo + hi) div 2) c))\<rparr>)
        else fitTableLoop rows l r maxH q g lo ((lo + hi) div 2 - 1)
               (fst (tableAt q l r g rows ((lo + hi) div 2) c), best, br))"
  by (subst fitTableLoop.simps) (simp add: Let_def split: prod.splits)

lemma fitTableLoop_result:
  "fitTableLoop rows l r maxH q g lo hi (c, best, br) = (c', best', br') \<Longrightarrow>
     measurer c' = measurer c \<and>
     (br' = br \<or>
      (\<exists>s. lo \<le> s \<and> s \<le> hi \<and> of_int (snd (snd (tableAt q l r g rows s c))) \<le> maxH \<and>
           br' = Some \<lparr>fontPx = s, lineHeight = \<lceil>of_int s * g\<rceil>,
                        wrapped = fst (snd (tableAt q l r g rows s c))\<rparr>))"
proof (induction "nat (hi - lo + 1)" arbitrary: lo hi c best br rule: less_induct)
  case less
  show ?case
  proof (cases "lo \<le> hi")
    case False
    with less.prems show ?thesis by (simp add: fitTableLoop_stop)
  next
    case True
    define mid where "mid = (lo + hi) div 2"
    define c1 where "c1 = fst (tableAt q l r g rows mid c)"
    have mid: "lo \<le> mid" "mid \<le> hi"
      using True by (simp_all add: mid_def)
    have m1: "measurer c1 = measurer c"
      by (simp add: c1_def tableAt_measurer)
    have same: "snd (tableAt q l r g rows s c1) = snd (tableAt q l r g rows s c)" for s
      by (rule tableAt_ctx_indep [OF m1])
    show ?thesis
    proof (cases "of_int (snd (snd (tableAt q l r g rows mid c))) \<le> maxH")
      case True
      let ?res = "\<lparr>fontPx = mid, lineHeight = \<lceil>of_int mid * g\<rceil>,
                   wrapped = fst (snd (tableAt q l r g rows mid c))\<rparr>"
      from less.prems \<open>lo \<le> hi\<close> True
      have run: "fitTableLoop rows l r maxH q g (mid + 1) hi (c1, mid, Some ?res) = (c', best', br')"
        by (simp add: fitTableLoop_step mid_def c1_def)
      have "nat (hi - (mid + 1) + 1) < nat (hi - lo + 1)"
        using mid by simp
      from less.hyps [OF this run] m1 same True mid show ?thesis
        by auto
    next
      case False
      from less.prems \<open>lo \<le> hi\<close> False
      have run: "fitTableLoop rows l r maxH q g lo (mid - 1) (c1, best, br) = (c', best', br')"
        by (simp add: fitTableLoop_step mid_def c1_def)
      have "nat (mid - 1 - lo + 1) < nat (hi - lo + 1)"
        using mid by simp
      from less.hyps [OF this run] m1 same mid show ?thesis
        by auto
    qed
  qed
qed


text \<open>
  Claim C6. With \<open>minPx \<le> maxPx\<close> the font size returned by the table fitter lies
  between \<open>minPx\<close> and \<open>maxPx\<close>, whether a size was found or the fallback is taken.
\<close>

theorem fitFontBinaryTable_size_in_range:
  assumes "minPx \<le> maxPx"
  shows "minPx \<le> fontPx (fst (fitFontBinaryTable c rows l r maxH minPx maxPx fam g))
         \<and> fontPx (fst (fitFontBinaryTable c rows l r maxH minPx maxPx fam g)) \<le> maxPx"
proof -
  let ?q = "quoteFontName fam"
  obtain c1 best br where run:
    "fitTableLoop rows l r maxH ?q g minPx maxPx (c, minPx, None) = (c1, best, br)"
    by (cases "fitTableLoop rows l r maxH ?q g minPx maxPx (c, minPx, None)")
  show ?thesis
  proof (cases br)
    case None
    with run assms show ?thesis
      by (simp add: fitFontBinaryTable_def Let_def)
  next
    case (Some res)
    with fitTableLoop_result [OF run] have "minPx \<le> fontPx res \<and> fontPx res \<le> maxPx"
      by auto
    with run Some show ?thesis
      by (simp add: fitFontBinaryTable_def Let_def)
  qed
qed

text \<open>
  Claim C7. For an empty row list the table fitter returns a result with no wrapped
  rows, whose row heights sum to 0 and over which drawing advances by 0; the total
  height the search computes is 0 at every size. The wrapper returns no line for the
  empty string and the paragraph fitter returns no line for it. All these functions are
  total, so a value is returned for every argument.
\<close>

theorem fitFontBinaryTable_no_rows:
  "wrapped (fst (fitFontBinaryTable c [] l r maxH minPx maxPx fam g)) = []
   \<and> sum_list (map rowH (wrapped (fst (fitFontBinaryTable c [] l r maxH minPx maxPx fam g)))) = 0
   \<and> drawnHeight (fst (fitFontBinaryTable c [] l r maxH minPx maxPx fam g)) = 0
   \<and> tableHeightAt c [] l r fam g s = 0
   \<and> wrapByWidth c [] maxW = []
   \<and> lines (fst (fitFontBinaryParagraph c [] maxW maxH minPx maxPx fam g)) = []"
proof -
  let ?q = "quoteFontName fam"
  obtain c1 best br where run:
    "fitTableLoop [] l r maxH ?q g minPx maxPx (c, minPx, None) = (c1, best, br)"
    by (cases "fitTableLoop [] l r maxH ?q g minPx maxPx (c, minPx, None)")
  have none: "wrapped (fst (fitFontBinaryTable c [] l r maxH minPx maxPx fam g)) = []"
  proof (cases br)
    case None
    with run show ?thesis
      by (simp add: fitFontBinaryTable_def Let_def)
  next
    case (Some res)
    with fitTableLoop_result [OF run] have "wrapped res = []"
      by (auto simp: tableAt_empty)
    with run Some show ?thesis
      by (simp add: fitFontBinaryTable_def Let_def)
  qed
  have par: "lines (fst (fitFontBinaryParagraph c [] maxW maxH minPx maxPx fam g)) = []"
    by (simp add: fitFontBinaryParagraph_def measureParagraph_def wrapByWidth_def Let_def
        split: prod.splits)
  from none par show ?thesis
    by (simp add: drawnHeight_def tableHeightAt_def tableAt_empty wrapByWidth_def)
qed

subsection \<open>The table fitter at sample inputs\<close>

lemma sample_strings:
  "fromString ''ab'' = [97, 98]" "fromString ''c'' = [99]" "fromString ''serif'' = [115, 101, 114, 105, 102]"
  by (simp_all add: fromString_def)

lemma sample_tokens: "tokenizeWords [97, 98] = [[97, 98]]" "tokenizeWords [99] = [[99]]"
  by (simp_all add: tokenizeWords_def isSpace_def)

lemma measureText_em:
  "measureText \<lparr>font = f, measurer = emWidth\<rparr> t = of_int (sizePx f) * of_nat (length t)"
  by (simp add: measureText_def emWidth_def)

lemma wrap_ab_narrow:
  "10 \<le> s \<Longrightarrow> s \<le> 25 \<Longrightarrow>
   wrapByWidth \<lparr>font = \<lparr>weight = w, sizePx = s, family = q\<rparr>, measurer = emWidth\<rparr> [97, 98] 50 = [[97, 98]]"
  by (simp add: wrapByWidth_def sample_tokens measureText_em Let_def)

lemma wrap_c_narrow:
  "10 \<le> s \<Longrightarrow> s \<le> 25 \<Longrightarrow>
   wrapByWidth \<lparr>font = \<lparr>weight = w, sizePx = s, family = q\<rparr>, measurer = emWidth\<rparr> [99] 50 = [[99]]"
  by (simp add: wrapByWidth_def sample_tokens measureText_em Let_def)

lemma sample_tableAt:
  "10 \<le> s \<Longrightarrow> s \<le> 25 \<Longrightarrow>
   tableAt q 50 50 g sampleRows s \<lparr>font = f, measurer = emWidth\<rparr>
     = (\<lparr>font = \<lparr>weight = None, sizePx = s, family = q\<rparr>, measurer = emWidth\<rparr>,
        [\<lparr>left = [[97, 98]], right = [[99]], rowH = \<lceil>of_int s * g\<rceil>\<rparr>],
        if 0 < \<lceil>of_int s * g\<rceil> + rowGap \<lceil>of_int s * g\<rceil> then \<lceil>of_int s * g\<rceil>
        else \<lceil>of_int s * g\<rceil> + rowGap \<lceil>of_int s * g\<rceil>)"
  by (simp add: tableAt_def sampleRows_def sample_strings Let_def wrap_ab_narrow wrap_c_narrow)

lemma ceil_vals: "\<lceil>10 * (1.12::real)\<rceil> = 12" "\<lceil>11 * (1.12::real)\<rceil> = 13" "\<lceil>12 * (1.12::real)\<rceil> = 14"
  by (simp_all add: ceiling_eq_iff)

lemma bitLength_zero: "bitLength 0 = 0"
  by (simp add: bitLength.simps)

lemma bitLength_pos: "0 < n \<Longrightarrow> bitLength n = Suc (bitLength (n div 2))"
  by (subst bitLength.simps) simp

lemma gap_vals: "rowGap 12 = 4" "rowGap 13 = 5" "rowGap 14 = 5"
  by (simp_all add: rowGap_def gapProduct_def bitLength_zero bitLength_pos Let_def round_def
      floor_eq_iff)

text \<open>
  The row gap where the exact product is a half: at the line height 10 the double
  product is 3.5 and the gap 4, at 90 and 170 the double product lies below the half and
  the gap is 31 and 59.
\<close>

lemma gap_at_halves: "rowGap 10 = 4" "rowGap 90 = 31" "rowGap 170 = 59"
  by (simp_all add: rowGap_def gapProduct_def bitLength_zero bitLength_pos Let_def round_def
      floor_eq_iff)


lemma ctxAt_record: "ctxAt s = \<lparr>font = \<lparr>weight = None, sizePx = s, family = fromString ''serif''\<rparr>, measurer = emWidth\<rparr>"
  by (simp add: ctxAt_def)

text \<open>Claim C6 at the sample table, where the height 50 lets the largest size 12 fit.\<close>

theorem fitFontBinaryTable_size_in_range_witness:
  "(10::int) \<le> 12
   \<and> 10 \<le> fontPx (fst (fitFontBinaryTable (ctxAt 99) sampleRows 50 50 50 10 12 (fromString ''serif'') 1.12))
   \<and> fontPx (fst (fitFontBinaryTable (ctxAt 99) sampleRows 50 50 50 10 12 (fromString ''serif'') 1.12)) \<le> 12
   \<and> fst (fitFontBinaryTable (ctxAt 99) sampleRows 50 50 50 10 12 (fromString ''serif'') 1.12)
       = \<lparr>fontPx = 12, lineHeight = 14,
          wrapped = [\<lparr>left = [fromString ''ab''], right = [fromString ''c''], rowH = 14\<rparr>]\<rparr>"
proof -
  have bounds: "(10::int) \<le> 12" by simp
  have "fst (fitFontBinaryTable (ctxAt 99) sampleRows 50 50 50 10 12 (fromString ''serif'') 1.12)
       = \<lparr>fontPx = 12, lineHeight = 14,
          wrapped = [\<lparr>left = [fromString ''ab''], right = [fromString ''c''], rowH = 14\<rparr>]\<rparr>"
    by (simp add: fitFontBinaryTable_def Let_def ctxAt_record fitTableLoop_step fitTableLoop_stop
        sample_tableAt ceil_vals gap_vals sample_strings)
  with bounds fitFontBinaryTable_size_in_range [OF bounds] show ?thesis
    by simp
qed

lemma two_rows_tableAt:
  "10 \<le> s \<Longrightarrow> s \<le> 25 \<Longrightarrow>
   tableAt q 50 50 g (sampleRows @ sampleRows) s \<lparr>font = f, measurer = emWidth\<rparr>
     = (\<lparr>font = \<lparr>weight = None, sizePx = s, family = q\<rparr>, measurer = emWidth\<rparr>,
        [\<lparr>left = [[97, 98]], right = [[99]], rowH = \<lceil>of_int s * g\<rceil>\<rparr>,
         \<lparr>left = [[97, 98]], right = [[99]], rowH = \<lceil>of_int s * g\<rceil>\<rparr>],
        if 0 < 2 * (\<lceil>of_int s * g\<rceil> + rowGap \<lceil>of_int s * g\<rceil>)
        then 2 * \<lceil>of_int s * g\<rceil> + rowGap \<lceil>of_int s * g\<rceil>
        else 2 * (\<lceil>of_int s * g\<rceil> + rowGap \<lceil>of_int s * g\<rceil>))"
  by (simp add: tableAt_def sampleRows_def sample_strings Let_def wrap_ab_narrow wrap_c_narrow)

text \<open>
  Claim C2, at a failing input. Two rows with the key \<open>ab\<close> and the value \<open>c\<close>,
  characters as wide as the font size, columns of width 50, sizes from 10 to 12, the
  line gap 1.12 and a height of 5: the table fits at no size, so the fallback is taken.
  It returns the size 10 and the line height 12 with every key and value wrapped at the
  size 10, but the height of each row is 1, the number of its lines, where the search
  computes 12, the number of lines times the line height, for the same rows at the same
  size. Drawn with these heights the two rows advance by 10 instead of 32.
\<close>

theorem fitFontBinaryTable_fallback_row_height:
  "\<not> tableFits (ctxAt 99) (sampleRows @ sampleRows) 50 50 5 (fromString ''serif'') 1.12 10
   \<and> \<not> tableFits (ctxAt 99) (sampleRows @ sampleRows) 50 50 5 (fromString ''serif'') 1.12 11
   \<and> \<not> tableFits (ctxAt 99) (sampleRows @ sampleRows) 50 50 5 (fromString ''serif'') 1.12 12
   \<and> fst (fitFontBinaryTable (ctxAt 99) (sampleRows @ sampleRows) 50 50 5 10 12 (fromString ''serif'') 1.12)
       = \<lparr>fontPx = 10, lineHeight = 12,
          wrapped = [\<lparr>left = [fromString ''ab''], right = [fromString ''c''], rowH = 1\<rparr>,
                     \<lparr>left = [fromString ''ab''], right = [fromString ''c''], rowH = 1\<rparr>]\<rparr>
   \<and> fst (snd (tableAt (quoteFontName (fromString ''serif'')) 50 50 1.12 (sampleRows @ sampleRows) 10 (ctxAt 99)))
       = [\<lparr>left = [fromString ''ab''], right = [fromString ''c''], rowH = 12\<rparr>,
          \<lparr>left = [fromString ''ab''], right = [fromString ''c''], rowH = 12\<rparr>]
   \<and> drawnHeight (fst (fitFontBinaryTable (ctxAt 99) (sampleRows @ sampleRows) 50 50 5 10 12
         (fromString ''serif'') 1.12)) = 10
   \<and> drawnHeight \<lparr>fontPx = 10, lineHeight = 12,
         wrapped = fst (snd (tableAt (quoteFontName (fromString ''serif'')) 50 50 1.12
           (sampleRows @ sampleRows) 10 (ctxAt 99)))\<rparr> = 32"
proof -
  have fits: "\<not> tableFits (ctxAt 99) (sampleRows @ sampleRows) 50 50 5 (fromString ''serif'') 1.12 10"
    "\<not> tableFits (ctxAt 99) (sampleRows @ sampleRows) 50 50 5 (fromString ''serif'') 1.12 11"
    "\<not> tableFits (ctxAt 99) (sampleRows @ sampleRows) 50 50 5 (fromString ''serif'') 1.12 12"
    by (simp_all add: tableFits_def tableHeightAt_def ctxAt_record two_rows_tableAt ceil_vals gap_vals)
  have result: "fst (fitFontBinaryTable (ctxAt 99) (sampleRows @ sampleRows) 50 50 5 10 12 (fromString ''serif'') 1.12)
       = \<lparr>fontPx = 10, lineHeight = 12,
          wrapped = [\<lparr>left = [fromString ''ab''], right = [fromString ''c''], rowH = 1\<rparr>,
                     \<lparr>left = [fromString ''ab''], right = [fromString ''c''], rowH = 1\<rparr>]\<rparr>"
  proof -
    have loop: "fitTableLoop (sampleRows @ sampleRows) 50 50 5 q 1.12 10 12 (ctxAt 99, 10, None)
                  = (\<lparr>font = \<lparr>weight = None, sizePx = 10, family = q\<rparr>, measurer = emWidth\<rparr>, 10, None)" for q
      by (simp add: ctxAt_record fitTableLoop_step fitTableLoop_stop two_rows_tableAt ceil_vals gap_vals)
    show ?thesis
      unfolding fitFontBinaryTable_def Let_def loop
      by (simp add: fallbackRow_def sampleRows_def sample_strings wrap_ab_narrow wrap_c_narrow ceil_vals)
  qed
  have search: "fst (snd (tableAt (quoteFontName (fromString ''serif'')) 50 50 1.12 (sampleRows @ sampleRows) 10 (ctxAt 99)))
       = [\<lparr>left = [fromString ''ab''], right = [fromString ''c''], rowH = 12\<rparr>,
          \<lparr>left = [fromString ''ab''], right = [fromString ''c''], rowH = 12\<rparr>]"
    by (simp add: ctxAt_record two_rows_tableAt ceil_vals sample_strings)
  from fits result search show ?thesis
    by (simp add: drawnHeight_def gap_vals)
qed

section \<open>Properties of the paragraph fitter\<close>

lemma parFits_font: "parFits (c\<lparr>font := f\<rparr>) text maxW maxH fam g s = parFits c text maxW maxH fam g s"
  by (simp add: parFits_def linesAt_def)

lemma parFits_height_mono:
  "parFits c text maxW maxH2 fam g s \<Longrightarrow> maxH2 \<le> maxH1 \<Longrightarrow> parFits c text maxW maxH1 fam g s"
  by (simp add: parFits_def)

lemma fitParLoop_stop:
  "\<not> lo \<le> hi \<Longrightarrow> fitParLoop text maxW maxH q g lo hi (c, best, bl) = (c, best, bl)"
  by (subst fitParLoop.simps) simp

lemma fitParLoop_step:
  "lo \<le> hi \<Longrightarrow>
     fitParLoop text maxW maxH (quoteFontName fam) g lo hi (c, best, bl) =
       (if parFits c text maxW maxH fam g ((lo + hi) div 2)
        then fitParLoop text maxW maxH (quoteFontName fam) g ((lo + hi) div 2 + 1) hi
               (c\<lparr>font := \<lparr>weight = None, sizePx = (lo + hi) div 2, family = quoteFontName fam\<rparr>\<rparr>,
                (lo + hi) div 2, linesAt c text maxW fam ((lo + hi) div 2))
        else fitParLoop text maxW maxH (quoteFontName fam) g lo ((lo + hi) div 2 - 1)
               (c\<lparr>font := \<lparr>weight = None, sizePx = (lo + hi) div 2, family = quoteFontName fam\<rparr>\<rparr>,
                best, bl))"
  by (subst fitParLoop.simps) (simp add: Let_def parFits_def linesAt_def measureParagraph_def)

text \<open>The size the loop ends with is the one it started with or one of the sizes searched.\<close>

lemma fitParLoop_best_range:
  "fst (snd (fitParLoop text maxW maxH (quoteFontName fam) g lo hi (c, best, bl))) = best
   \<or> (lo \<le> fst (snd (fitParLoop text maxW maxH (quoteFontName fam) g lo hi (c, best, bl)))
      \<and> fst (snd (fitParLoop text maxW maxH (quoteFontName fam) g lo hi (c, best, bl))) \<le> hi)"
proof (induction "nat (hi - lo + 1)" arbitrary: lo hi c best bl rule: less_induct)
  case less
  show ?case
  proof (cases "lo \<le> hi")
    case False
    then show ?thesis by (simp add: fitParLoop_stop)
  next
    case True
    define mid where "mid = (lo + hi) div 2"
    have mid: "lo \<le> mid" "mid \<le> hi"
      using True by (simp_all add: mid_def)
    let ?c1 = "c\<lparr>font := \<lparr>weight = None, sizePx = mid, family = quoteFontName fam\<rparr>\<rparr>"
    show ?thesis
    proof (cases "parFits c text maxW maxH fam g mid")
      case True
      have "nat (hi - (mid + 1) + 1) < nat (hi - lo + 1)"
        using mid by simp
      from less.hyps [OF this, of "?c1" mid "linesAt c text maxW fam mid"] True \<open>lo \<le> hi\<close> mid
      show ?thesis
        by (auto simp: fitParLoop_step [OF \<open>lo \<le> hi\<close>] mid_def [symmetric])
    next
      case False
      have "nat (mid - 1 - lo + 1) < nat (hi - lo + 1)"
        using mid by simp
      from less.hyps [OF this, of "?c1" best bl] False \<open>lo \<le> hi\<close> mid
      show ?thesis
        by (auto simp: fitParLoop_step [OF \<open>lo \<le> hi\<close>] mid_def [symmetric])
    qed
  qed
qed

lemma fitParLoop_height_mono:
  "maxH2 \<le> maxH1 \<Longrightarrow> best \<le> lo \<Longrightarrow>
     fst (snd (fitParLoop text maxW maxH2 (quoteFontName fam) g lo hi (c, best, bl2)))
       \<le> fst (snd (fitParLoop text maxW maxH1 (quoteFontName fam) g lo hi (c, best, bl1)))"
proof (induction "nat (hi - lo + 1)" arbitrary: lo hi c best bl1 bl2 rule: less_induct)
  case less
  note heights = \<open>maxH2 \<le> maxH1\<close>
  show ?case
  proof (cases "lo \<le> hi")
    case False
    then show ?thesis by (simp add: fitParLoop_stop)
  next
    case True
    note inside = True
    define mid where "mid = (lo + hi) div 2"
    have mid: "lo \<le> mid" "mid \<le> hi"
      using True by (simp_all add: mid_def)
    let ?c1 = "c\<lparr>font := \<lparr>weight = None, sizePx = mid, family = quoteFontName fam\<rparr>\<rparr>"
    let ?ls = "linesAt c text maxW fam mid"
    let ?up = "\<lambda>maxH. fst (snd (fitParLoop text maxW maxH (quoteFontName fam) g (mid + 1) hi (?c1, mid, ?ls)))"
    let ?down = "\<lambda>maxH bl. fst (snd (fitParLoop text maxW maxH (quoteFontName fam) g lo (mid - 1) (?c1, best, bl)))"
    have up_less: "nat (hi - (mid + 1) + 1) < nat (hi - lo + 1)"
      and down_less: "nat (mid - 1 - lo + 1) < nat (hi - lo + 1)"
      using mid by simp_all
    consider (both) "parFits c text maxW maxH2 fam g mid" "parFits c text maxW maxH1 fam g mid"
      | (neither) "\<not> parFits c text maxW maxH2 fam g mid" "\<not> parFits c text maxW maxH1 fam g mid"
      | (split) "\<not> parFits c text maxW maxH2 fam g mid" "parFits c text maxW maxH1 fam g mid"
      using parFits_height_mono [OF _ heights] by blast
    then show ?thesis
    proof cases
      case both
      have "?up maxH2 \<le> ?up maxH1"
        by (rule less.hyps [OF up_less heights]) simp
      with both show ?thesis
        by (simp add: fitParLoop_step [OF inside] mid_def [symmetric])
    next
      case neither
      have "?down maxH2 bl2 \<le> ?down maxH1 bl1"
        by (rule less.hyps [OF down_less heights less.prems(2)])
      with neither show ?thesis
        by (simp add: fitParLoop_step [OF inside] mid_def [symmetric])
    next
      case split
      have "?down maxH2 bl2 \<le> mid"
        using fitParLoop_best_range [of "text" maxW maxH2 fam g lo "mid - 1" "?c1" best bl2]
          less.prems(2) mid by auto
      moreover have "mid \<le> ?up maxH1"
        using fitParLoop_best_range [of "text" maxW maxH1 fam g "mid + 1" hi "?c1" mid "?ls"] by auto
      ultimately show ?thesis
        using split by (simp add: fitParLoop_step [OF inside] mid_def [symmetric])
    qed
  qed
qed

lemma fitFontBinaryParagraph_fontPx:
  "fontPx (fst (fitFontBinaryParagraph c text maxW maxH minPx maxPx fam g))
     = fst (snd (fitParLoop text maxW maxH (quoteFontName fam) g minPx maxPx (c, minPx, [])))"
  by (simp add: fitFontBinaryParagraph_def Let_def split: prod.splits)

text \<open>
  Claim C8. With everything else fixed, a smaller maximal height never gives a larger
  font size: for \<open>maxH2 \<le> maxH1\<close> the size chosen at \<open>maxH2\<close> is at most the size
  chosen at \<open>maxH1\<close>.
\<close>

theorem fitFontBinaryParagraph_height_mono:
  assumes "maxH2 \<le> maxH1"
  shows "fontPx (fst (fitFontBinaryParagraph c text maxW maxH2 minPx maxPx fam g))
           \<le> fontPx (fst (fitFontBinaryParagraph c text maxW maxH1 minPx maxPx fam g))"
  unfolding fitFontBinaryParagraph_fontPx
  by (rule fitParLoop_height_mono [OF assms]) simp









subsection \<open>The paragraph fitter at sample inputs\<close>

lemma sample_par_strings: "fromString ''ab c'' = [97, 98, 32, 99]" "fromString ''a b'' = [97, 32, 98]"
  by (simp_all add: fromString_def)

lemma sample_par_tokens:
  "tokenizeWords [97, 98, 32, 99] = [[97, 98], [99]]" "tokenizeWords [97, 32, 98] = [[97], [98]]"
  by (simp_all add: tokenizeWords_def isSpace_def)

lemma sample_linesAt:
  "10 \<le> s \<Longrightarrow> s \<le> 25 \<Longrightarrow>
   linesAt (ctxAt k) [97, 98, 32, 99] 50 fam s = (if s \<le> 12 then [[97, 98, 32, 99]] else [[97, 98], [99]])"
  by (simp add: linesAt_def ctxAt_record wrapByWidth_def sample_par_tokens measureText_em Let_def)

lemma sample_parFits:
  "10 \<le> s \<Longrightarrow> s \<le> 25 \<Longrightarrow>
   parFits (ctxAt k) [97, 98, 32, 99] 50 maxH fam 1 s = (of_int (if s \<le> 12 then s else 2 * s) \<le> maxH)"
  by (simp add: parFits_def sample_linesAt)

text \<open>
  Claim C8 at the text \<open>ab c\<close> with characters as wide as the font size and the
  width 50, which takes one line up to the size 12 and two lines above: the height 13
  gives the size 12, the height 30 the size 15.
\<close>

theorem fitFontBinaryParagraph_height_mono_witness:
  "(13::real) \<le> 30
   \<and> fontPx (fst (fitFontBinaryParagraph (ctxAt 99) (fromString ''ab c'') 50 13 10 25 (fromString ''serif'') 1))
       \<le> fontPx (fst (fitFontBinaryParagraph (ctxAt 99) (fromString ''ab c'') 50 30 10 25 (fromString ''serif'') 1))
   \<and> fontPx (fst (fitFontBinaryParagraph (ctxAt 99) (fromString ''ab c'') 50 13 10 25 (fromString ''serif'') 1)) = 12
   \<and> fontPx (fst (fitFontBinaryParagraph (ctxAt 99) (fromString ''ab c'') 50 30 10 25 (fromString ''serif'') 1)) = 15"
proof -
  have heights: "(13::real) \<le> 30" by simp
  have "fontPx (fst (fitFontBinaryParagraph (ctxAt 99) (fromString ''ab c'') 50 13 10 25 (fromString ''serif'') 1)) = 12"
    by (simp add: fitFontBinaryParagraph_fontPx sample_par_strings fitParLoop_step fitParLoop_stop
        parFits_font sample_parFits)
  moreover
  have "fontPx (fst (fitFontBinaryParagraph (ctxAt 99) (fromString ''ab c'') 50 30 10 25 (fromString ''serif'') 1)) = 15"
    by (simp add: fitFontBinaryParagraph_fontPx sample_par_strings fitParLoop_step fitParLoop_stop
        parFits_font sample_parFits)
  moreover note fitFontBinaryParagraph_height_mono [OF heights]
  ultimately show ?thesis using heights by simp
qed





end
